theory Spec2Isabelle
  imports Main "HOL-Library.AList" "HOL-Library.Multiset"
begin

section \<open>Data model of app.py\<close>

text \<open>
  A Python \<open>dict\<close> from names to names is an association list in insertion order
  with pairwise different keys; a table of the database is the list of its rows, the
  first column being the \<open>PRIMARY KEY\<close>. A form, the query arguments and the
  process environment are partial maps from field names to values.
\<close>

type_synonym name = string
type_synonym dict = "(name \<times> name) list"
type_synonym rows = "(name \<times> string) list"
type_synonym form = "string \<rightharpoonup> string"

text \<open>
  The module-level configuration: \<open>NAMES\<close>, \<open>PIN_REQUIRED\<close>, \<open>PINS\<close>,
  \<open>FORBIDDEN_PAIRS\<close> and the process environment \<open>os.environ\<close>.
\<close>

record config =
  NAMES :: "name list"
  PIN_REQUIRED :: bool
  PINS :: "name \<rightharpoonup> string"
  FORBIDDEN_PAIRS :: "(name \<times> name) set"
  environ :: "string \<rightharpoonup> string"

text \<open>
  The database file: table \<open>assignments (giver, receiver)\<close> and table
  \<open>revealed (giver, revealed_at)\<close>.
\<close>

record db =
  assignments :: rows
  revealed :: rows

text \<open>
  Exceptions that escape a handler: the \<open>RuntimeError\<close> raised by the generator and
  the \<open>IntegrityError\<close> of an \<open>INSERT\<close> that repeats a primary key.
\<close>

datatype error = RuntimeError | IntegrityError

text \<open>
  The four messages that \<open>reveal\<close> flashes before redirecting, in the order of the
  source: invalid name, name already used, wrong PIN, no assignment stored.
\<close>

datatype flash = InvalidName | AlreadyRevealed | BadPin | MissingAssignment

text \<open>
  What a handler returns: the rendered landing page (the \<open>people\<close> list and the
  \<open>pin_required\<close> flag), the rendered reveal page (giver and receiver), a redirect to
  the landing page after a flashed message or without one, the 401 answer, the admin
  listing (the rows of both tables and the key put into the reset form), or the
  server error of an uncaught exception.
\<close>

datatype response =
    Index_page "(name \<times> bool) list" bool
  | Reveal_page name name
  | Redirect_index "flash option"
  | Unauthorized
  | Admin_page rows rows "string option"
  | Server_error error

section \<open>Library functions used by the source\<close>

text \<open>\<open>d.get(k, default)\<close> on a form or on the environment.\<close>

definition get_default :: "(string \<rightharpoonup> string) \<Rightarrow> string \<Rightarrow> string \<Rightarrow> string" where
  "get_default m k d = (case m k of None \<Rightarrow> d | Some v \<Rightarrow> v)"

text \<open>
  \<open>str.strip()\<close>: a character of a HOL string stands for a code point below 256.
  Among these Python counts as whitespace the tab, line feed, vertical tab, form feed,
  carriage return, the four separators 28 to 31, the space, the next-line character
  (133) and the no-break space (160).
\<close>

definition isspace :: "char \<Rightarrow> bool" where
  "isspace c = (of_char c \<in> {9, 10, 11, 12, 13, 28, 29, 30, 31, 32, 133, 160 :: nat})"

definition strip :: "string \<Rightarrow> string" where
  "strip s = rev (dropWhile isspace (rev (dropWhile isspace s)))"

text \<open>
  \<open>dict(pairs)\<close>: the pairs are entered from left to right; a key that is already
  present keeps its position and takes the new value.
\<close>

definition dict :: "(name \<times> name) list \<Rightarrow> dict" where
  "dict ps = fold (\<lambda>(k, v) d. AList.update k v d) ps []"

section \<open>The assignment generator\<close>

definition is_valid_pair :: "(name \<times> name) set \<Rightarrow> name \<Rightarrow> name \<Rightarrow> bool" where
  "is_valid_pair forbidden giver receiver =
     (if giver = receiver then False
      else if (giver, receiver) \<in> forbidden then False
      else True)"

text \<open>
  The inner loop of \<open>generate_secret_santa\<close> over \<open>zip(names, receivers)\<close>: the flag
  \<open>ok\<close> turns false at the first invalid pair and the loop breaks.
\<close>

fun all_pairs_valid :: "(name \<times> name) set \<Rightarrow> (name \<times> name) list \<Rightarrow> bool" where
  "all_pairs_valid forbidden [] = True"
| "all_pairs_valid forbidden ((giver, receiver) # ps) =
     (if \<not> is_valid_pair forbidden giver receiver then False
      else all_pairs_valid forbidden ps)"

text \<open>
  \<open>random.shuffle\<close> is not a function of its argument. Its outcomes are a parameter
  of the model: \<open>shuffle i xs\<close> is the list that the call of attempt number \<open>i\<close>
  leaves in place of \<open>xs\<close>. The loop \<open>for _ in range(5000)\<close> runs over the list of
  attempt numbers; falling out of it raises \<open>RuntimeError\<close>.
\<close>

type_synonym shuffle = "nat \<Rightarrow> name list \<Rightarrow> name list"

fun attempts :: "shuffle \<Rightarrow> (name \<times> name) set \<Rightarrow> name list \<Rightarrow> nat list \<Rightarrow> error + dict" where
  "attempts shuffle forbidden names [] = Inl RuntimeError"
| "attempts shuffle forbidden names (i # is) =
     (let receivers = shuffle i names
      in if all_pairs_valid forbidden (zip names receivers)
         then Inr (dict (zip names receivers))
         else attempts shuffle forbidden names is)"

definition generate_secret_santa :: "shuffle \<Rightarrow> (name \<times> name) set \<Rightarrow> name list \<Rightarrow> error + dict" where
  "generate_secret_santa shuffle forbidden names = attempts shuffle forbidden names [0..<5000]"

section \<open>The store\<close>

text \<open>
  \<open>CREATE TABLE IF NOT EXISTS\<close> leaves the rows of an existing table as they are; a
  table that does not exist yet is the empty list of rows.
\<close>

definition init_db :: "db \<Rightarrow> db" where
  "init_db d = d"

definition assignments_exist :: "db \<Rightarrow> bool" where
  "assignments_exist d = (length (assignments d) > 0)"

definition revealed_set :: "db \<Rightarrow> name set" where
  "revealed_set d = set (map fst (revealed d))"

definition load_receiver :: "db \<Rightarrow> name \<Rightarrow> name option" where
  "load_receiver d giver = map_of (assignments d) giver"

text \<open>
  \<open>INSERT OR IGNORE\<close>: a giver that already has a row keeps it; \<open>now\<close> is the text
  of \<open>datetime.utcnow().isoformat()\<close>.
\<close>

definition mark_revealed :: "string \<Rightarrow> name \<Rightarrow> db \<Rightarrow> db" where
  "mark_revealed now giver d =
     (if giver \<in> set (map fst (revealed d)) then d
      else d\<lparr>revealed := revealed d @ [(giver, now)]\<rparr>)"

text \<open>
  The \<open>INSERT\<close> loop of \<open>save_assignments\<close>: a row whose giver is already in the
  table violates the primary key and raises.
\<close>

fun insert_rows :: "rows \<Rightarrow> dict \<Rightarrow> error + rows" where
  "insert_rows table [] = Inr table"
| "insert_rows table ((giver, receiver) # items) =
     (if giver \<in> set (map fst table) then Inl IntegrityError
      else insert_rows (table @ [(giver, receiver)]) items)"

text \<open>
  \<open>save_assignments\<close> empties both tables and inserts the items of the mapping, all
  in one transaction: an exception inside the \<open>with\<close> block rolls it back, so the
  caller keeps the database it had.
\<close>

definition save_assignments :: "dict \<Rightarrow> db \<Rightarrow> error + db" where
  "save_assignments mapping d =
     (case insert_rows [] mapping of
        Inl e \<Rightarrow> Inl e
      | Inr table \<Rightarrow> Inr (d\<lparr>assignments := table, revealed := []\<rparr>))"

section \<open>The request handlers\<close>

definition index :: "config \<Rightarrow> shuffle \<Rightarrow> db \<Rightarrow> response \<times> db" where
  "index cfg shuffle d0 =
     (let d = init_db d0;
          page = (\<lambda>d'. Index_page (map (\<lambda>n. (n, n \<in> revealed_set d')) (NAMES cfg))
                                   (PIN_REQUIRED cfg))
      in if \<not> assignments_exist d then
           (case generate_secret_santa shuffle (FORBIDDEN_PAIRS cfg) (NAMES cfg) of
              Inl e \<Rightarrow> (Server_error e, d)
            | Inr mapping \<Rightarrow>
                (case save_assignments mapping d of
                   Inl e \<Rightarrow> (Server_error e, d)
                 | Inr d' \<Rightarrow> (page d', d')))
         else (page d, d))"

definition reveal :: "config \<Rightarrow> string \<Rightarrow> db \<Rightarrow> form \<Rightarrow> response \<times> db" where
  "reveal cfg now d0 fm =
     (let d = init_db d0;
          giver = strip (get_default fm ''giver'' '''');
          pin = strip (get_default fm ''pin'' '''')
      in if giver \<notin> set (NAMES cfg) then (Redirect_index (Some InvalidName), d)
         else if giver \<in> revealed_set d then (Redirect_index (Some AlreadyRevealed), d)
         else if PIN_REQUIRED cfg \<and>
                 (case PINS cfg giver of None \<Rightarrow> True | Some p \<Rightarrow> pin \<noteq> p)
           then (Redirect_index (Some BadPin), d)
         else (case load_receiver d giver of
                 None \<Rightarrow> (Redirect_index (Some MissingAssignment), d)
               | Some receiver \<Rightarrow>
                   if receiver = [] then (Redirect_index (Some MissingAssignment), d)
                   else (Reveal_page giver receiver, mark_revealed now giver d)))"

definition admin_reset :: "config \<Rightarrow> shuffle \<Rightarrow> db \<Rightarrow> form \<Rightarrow> response \<times> db" where
  "admin_reset cfg shuffle d0 fm =
     (let d = init_db d0;
          admin_key = get_default (environ cfg) ''ADMIN_KEY'' '''';
          provided = get_default fm ''admin_key'' ''''
      in if admin_key = [] \<or> provided \<noteq> admin_key then (Unauthorized, d)
         else (case generate_secret_santa shuffle (FORBIDDEN_PAIRS cfg) (NAMES cfg) of
                 Inl e \<Rightarrow> (Server_error e, d)
               | Inr mapping \<Rightarrow>
                   (case save_assignments mapping d of
                      Inl e \<Rightarrow> (Server_error e, d)
                    | Inr d' \<Rightarrow> (Redirect_index None, d'))))"

text \<open>
  \<open>admin_view\<close> compares \<open>request.args.get("key")\<close> with
  \<open>os.environ.get("ADMIN_KEY")\<close>, both \<open>None\<close> when absent.
\<close>

definition admin_view :: "config \<Rightarrow> db \<Rightarrow> form \<Rightarrow> response \<times> db" where
  "admin_view cfg d args =
     (let key = args ''key''
      in if key \<noteq> environ cfg ''ADMIN_KEY'' then (Unauthorized, d)
         else (Admin_page (assignments d) (revealed d) key, d))"

text \<open>
  The routes of the application. A request carries what its handler reads from
  outside the configuration and the database: the shuffle outcomes, the clock, the
  form or the query arguments.
\<close>

datatype request =
    Get_index shuffle
  | Post_reveal string form
  | Post_admin_reset shuffle form
  | Get_admin form

fun handle :: "config \<Rightarrow> db \<Rightarrow> request \<Rightarrow> response \<times> db" where
  "handle cfg d (Get_index shuffle) = index cfg shuffle d"
| "handle cfg d (Post_reveal now fm) = reveal cfg now d fm"
| "handle cfg d (Post_admin_reset shuffle fm) = admin_reset cfg shuffle d fm"
| "handle cfg d (Get_admin args) = admin_view cfg d args"

text \<open>The database after a sequence of requests.\<close>

fun serve :: "config \<Rightarrow> db \<Rightarrow> request list \<Rightarrow> db" where
  "serve cfg d [] = d"
| "serve cfg d (rq # rqs) = serve cfg (snd (handle cfg d rq)) rqs"

text \<open>The configuration written in the source file, with the admin key unset.\<close>

definition source_config :: config where
  "source_config =
     \<lparr> NAMES = [''Fortis'', ''Mara'', ''Diego'', ''Maryem'', ''Zaira'', ''Kami'', ''Laila'', ''Alek''],
       PIN_REQUIRED = True,
       PINS = [''Fortis'' \<mapsto> ''1111'', ''Mara'' \<mapsto> ''2222'', ''Diego'' \<mapsto> ''3333'',
               ''Maryem'' \<mapsto> ''4444'', ''Zaira'' \<mapsto> ''5555'', ''Kami'' \<mapsto> ''6666'',
               ''Laila'' \<mapsto> ''7777'', ''Alek'' \<mapsto> ''8888''],
       FORBIDDEN_PAIRS = {(''Fortis'', ''Mara'')},
       environ = Map.empty \<rparr>"

text \<open>
  A reset request that passes the key check of \<open>admin_reset\<close>: the configured key
  is set and not empty, and the form carries the same key.
\<close>

fun authorized_reset :: "config \<Rightarrow> request \<Rightarrow> bool" where
  "authorized_reset cfg (Post_admin_reset shuffle fm) =
     (let admin_key = get_default (environ cfg) ''ADMIN_KEY'' '''';
          provided = get_default fm ''admin_key'' ''''
      in \<not> (admin_key = [] \<or> provided \<noteq> admin_key))"
| "authorized_reset cfg (Get_index shuffle) = False"
| "authorized_reset cfg (Post_reveal now fm) = False"
| "authorized_reset cfg (Get_admin args) = False"

section \<open>Dictionaries and rows\<close>

lemma update_fresh: "k \<notin> fst ` set al \<Longrightarrow> AList.update k v al = al @ [(k, v)]"
  by (induction al) auto

lemma fold_update_fresh:
  "distinct (map fst (acc @ ps)) \<Longrightarrow>
   fold (\<lambda>(k, v) d. AList.update k v d) ps acc = acc @ ps"
proof (induction ps arbitrary: acc)
  case Nil
  then show ?case by simp
next
  case (Cons p ps)
  obtain k v where p: "p = (k, v)" by (cases p)
  from Cons.prems have fresh: "k \<notin> fst ` set acc" by (auto simp: p)
  from Cons.prems have "distinct (map fst ((acc @ [(k, v)]) @ ps))" by (auto simp: p)
  from Cons.IH [OF this] show ?case by (simp add: p update_fresh [OF fresh])
qed

lemma dict_distinct: "distinct (map fst ps) \<Longrightarrow> dict ps = ps"
  using fold_update_fresh [of "[]" ps] by (simp add: dict_def)

lemma distinct_fold_update:
  "distinct (map fst acc) \<Longrightarrow> distinct (map fst (fold (\<lambda>(k, v) d. AList.update k v d) ps acc))"
  by (induction ps arbitrary: acc) (auto simp: distinct_update)

lemma distinct_dict: "distinct (map fst (dict ps))"
  by (simp add: dict_def distinct_fold_update)

lemma all_pairs_valid_iff:
  "all_pairs_valid forbidden ps \<longleftrightarrow> (\<forall>(g, r) \<in> set ps. g \<noteq> r \<and> (g, r) \<notin> forbidden)"
  by (induction forbidden ps rule: all_pairs_valid.induct) (auto simp: is_valid_pair_def)

lemma attempts_Inr:
  "attempts shuffle forbidden names is = Inr m \<Longrightarrow>
   \<exists>i \<in> set is. all_pairs_valid forbidden (zip names (shuffle i names)) \<and>
                 m = dict (zip names (shuffle i names))"
  by (induction "is") (auto simp: Let_def split: if_splits)

lemma attempts_Inl:
  "attempts shuffle forbidden names is = Inl e \<longleftrightarrow>
   e = RuntimeError \<and> (\<forall>i \<in> set is. \<not> all_pairs_valid forbidden (zip names (shuffle i names)))"
  by (induction "is") (auto simp: Let_def)

lemma insert_rows_distinct:
  "distinct (map fst (table @ items)) \<Longrightarrow> insert_rows table items = Inr (table @ items)"
proof (induction items arbitrary: table)
  case Nil
  then show ?case by simp
next
  case (Cons p items)
  obtain k v where p: "p = (k, v)" by (cases p)
  from Cons.prems have "k \<notin> set (map fst table)" by (auto simp: p)
  moreover from Cons.prems have "distinct (map fst ((table @ [(k, v)]) @ items))" by (auto simp: p)
  ultimately show ?case using Cons.IH [of "table @ [(k, v)]"] by (simp add: p)
qed

lemma save_assignments_distinct:
  "distinct (map fst mapping) \<Longrightarrow>
   save_assignments mapping d = Inr (d\<lparr>assignments := mapping, revealed := []\<rparr>)"
  using insert_rows_distinct [of "[]" mapping] by (simp add: save_assignments_def)

section \<open>The retry loop\<close>

lemma generate_Inr:
  assumes gen: "generate_secret_santa shuffle forbidden names = Inr m"
  shows "\<exists>i<5000. all_pairs_valid forbidden (zip names (shuffle i names)) \<and>
                 m = dict (zip names (shuffle i names))"
proof -
  from gen have "attempts shuffle forbidden names [0..<5000] = Inr m"
    by (simp only: generate_secret_santa_def)
  from attempts_Inr [OF this] obtain i where "i \<in> set [0..<5000]"
    "all_pairs_valid forbidden (zip names (shuffle i names))" "m = dict (zip names (shuffle i names))"
    by blast
  moreover from this(1) have "i < 5000" by (simp only: set_upt atLeastLessThan_iff)
  ultimately show ?thesis by blast
qed

lemma generate_Inl:
  "generate_secret_santa shuffle forbidden names = Inl e \<longleftrightarrow>
   e = RuntimeError \<and> (\<forall>i<5000. \<not> all_pairs_valid forbidden (zip names (shuffle i names)))"
proof -
  have "(\<forall>i \<in> set [0..<5000]. \<not> all_pairs_valid forbidden (zip names (shuffle i names))) \<longleftrightarrow>
        (\<forall>i<5000. \<not> all_pairs_valid forbidden (zip names (shuffle i names)))"
    by (simp only: set_upt atLeastLessThan_iff Ball_def) blast
  then show ?thesis
    by (simp only: generate_secret_santa_def attempts_Inl)
qed

lemma generate_second:
  assumes "\<not> all_pairs_valid forbidden (zip names (shuffle 0 names))"
    and "all_pairs_valid forbidden (zip names (shuffle (Suc 0) names))"
  shows "generate_secret_santa shuffle forbidden names = Inr (dict (zip names (shuffle (Suc 0) names)))"
proof -
  have a: "[0..<5000] = 0 # [Suc 0..<5000]" by (rule upt_conv_Cons) (simp only: zero_less_numeral)
  have "Suc 0 < 5000" by (simp only: One_nat_def [symmetric] one_less_numeral_iff) (simp only: num.simps rel_simps)
  then have b: "[Suc 0..<5000] = Suc 0 # [Suc (Suc 0)..<5000]" by (rule upt_conv_Cons)
  show ?thesis using assms
    by (simp only: generate_secret_santa_def a b attempts.simps Let_def if_True if_False)
qed

lemma not_all_pairs_valid_iff:
  "\<not> all_pairs_valid forbidden ps \<longleftrightarrow> (\<exists>(g, r) \<in> set ps. g = r \<or> (g, r) \<in> forbidden)"
  by (induction forbidden ps rule: all_pairs_valid.induct) (auto simp: is_valid_pair_def)

lemma zip_perm_bij:
  assumes d: "distinct names" and p: "mset rs = mset names"
  shows "bij_betw (\<lambda>g. the (map_of (zip names rs) g)) (set names) (set names)"
proof -
  have len: "length rs = length names" using p by (rule mset_eq_length)
  have drs: "distinct rs" using mset_eq_imp_distinct_iff [OF p] d by blast
  have srs: "set rs = set names" using p by (rule mset_eq_setD)
  have nth: "\<And>j. j < length names \<Longrightarrow> the (map_of (zip names rs) (names ! j)) = rs ! j"
    using d len by (simp add: map_of_zip_nth)
  have inj: "inj_on (\<lambda>g. the (map_of (zip names rs) g)) (set names)"
  proof (rule inj_onI)
    fix x y assume x: "x \<in> set names" and y: "y \<in> set names"
      and e: "the (map_of (zip names rs) x) = the (map_of (zip names rs) y)"
    from x obtain j where j: "j < length names" "x = names ! j" by (auto simp: in_set_conv_nth)
    from y obtain k where k: "k < length names" "y = names ! k" by (auto simp: in_set_conv_nth)
    from e j k nth have "rs ! j = rs ! k" by simp
    with drs j k len have "j = k" by (simp add: nth_eq_iff_index_eq)
    with j k show "x = y" by simp
  qed
  have img: "(\<lambda>g. the (map_of (zip names rs) g)) ` set names = set names"
  proof -
    have "(\<lambda>g. the (map_of (zip names rs) g)) ` set names = set rs"
    proof (rule set_eqI)
      fix r
      show "r \<in> (\<lambda>g. the (map_of (zip names rs) g)) ` set names \<longleftrightarrow> r \<in> set rs"
      proof
        assume "r \<in> (\<lambda>g. the (map_of (zip names rs) g)) ` set names"
        then obtain g where g: "g \<in> set names" "r = the (map_of (zip names rs) g)" by auto
        from g(1) obtain j where j: "j < length names" "g = names ! j" by (auto simp: in_set_conv_nth)
        with g nth len show "r \<in> set rs" by simp
      next
        assume "r \<in> set rs"
        then obtain j where j: "j < length rs" "r = rs ! j" by (auto simp: in_set_conv_nth)
        with nth len have "r = the (map_of (zip names rs) (names ! j))" by simp
        moreover from j len have "names ! j \<in> set names" by simp
        ultimately show "r \<in> (\<lambda>g. the (map_of (zip names rs) g)) ` set names" by blast
      qed
    qed
    with srs show ?thesis by simp
  qed
  from inj img show ?thesis by (simp add: bij_betw_def)
qed

lemma mset_rotate1: "mset (rotate1 xs) = mset xs"
  by (cases xs) simp_all

lemma mset_rotate: "mset (rotate n xs) = mset xs"
  by (induction n) (simp_all add: mset_rotate1)

lemma generate_secret_santa_props:
  assumes d: "distinct names"
    and perm: "\<forall>i<5000. mset (shuffle i names) = mset names"
    and gen: "generate_secret_santa shuffle forbidden names = Inr m"
  shows "map fst m = names \<and> mset (map snd m) = mset names \<and>
         dom (map_of m) = set names \<and>
         bij_betw (\<lambda>g. the (map_of m g)) (set names) (set names) \<and>
         (\<forall>g r. map_of m g = Some r \<longrightarrow> g \<noteq> r \<and> (g, r) \<notin> forbidden)"
proof -
  from gen obtain i where i: "i < 5000"
    and ok: "all_pairs_valid forbidden (zip names (shuffle i names))"
    and m: "m = dict (zip names (shuffle i names))"
    using generate_Inr [of shuffle forbidden names m] by blast
  define rs where "rs = shuffle i names"
  from perm i have p: "mset rs = mset names" by (simp add: rs_def)
  have len: "length rs = length names" using p by (rule mset_eq_length)
  have keys: "map fst (zip names rs) = names" using len by simp
  have vals: "map snd (zip names rs) = rs" using len by simp
  have mz: "m = zip names rs" using m d keys by (simp add: rs_def [symmetric] dict_distinct)
  have c1: "map fst m = names" using mz keys by simp
  have c2: "mset (map snd m) = mset names" using mz vals p by simp
  have c3: "dom (map_of m) = set names"
  proof -
    have "dom (map_of m) = set (map fst m)" by (simp add: dom_map_of_conv_image_fst)
    then show ?thesis by (simp only: c1)
  qed
  have c4: "bij_betw (\<lambda>g. the (map_of m g)) (set names) (set names)"
    unfolding mz using d p by (rule zip_perm_bij)
  have c5: "\<forall>g r. map_of m g = Some r \<longrightarrow> g \<noteq> r \<and> (g, r) \<notin> forbidden"
  proof (intro allI impI)
    fix g r assume "map_of m g = Some r"
    then have "(g, r) \<in> set (zip names rs)" unfolding mz by (rule map_of_SomeD)
    with ok show "g \<noteq> r \<and> (g, r) \<notin> forbidden"
      by (auto simp: all_pairs_valid_iff rs_def)
  qed
  from c1 c2 c3 c4 c5 show ?thesis by blast
qed

lemma generate_distinct_keys:
  "generate_secret_santa shuffle forbidden names = Inr m \<Longrightarrow> distinct (map fst m)"
  using generate_Inr [of shuffle forbidden names m] distinct_dict by blast

lemma save_lookup:
  "revealed_set (d\<lparr>assignments := mapping, revealed := []\<rparr>) = {} \<and>
   (\<forall>g. load_receiver (d\<lparr>assignments := mapping, revealed := []\<rparr>) g = map_of mapping g)"
  by (simp add: revealed_set_def load_receiver_def)

lemma admin_reset_authorized:
  assumes key: "environ cfg ''ADMIN_KEY'' = Some k" "k \<noteq> []" "get_default fm ''admin_key'' '''' = k"
    and gen: "generate_secret_santa shuffle (FORBIDDEN_PAIRS cfg) (NAMES cfg) = Inr m"
  shows "admin_reset cfg shuffle d fm = (Redirect_index None, d\<lparr>assignments := m, revealed := []\<rparr>)"
proof -
  have "save_assignments m d = Inr (d\<lparr>assignments := m, revealed := []\<rparr>)"
    using generate_distinct_keys [OF gen] by (rule save_assignments_distinct)
  with key gen show ?thesis
    by (simp add: admin_reset_def init_db_def Let_def get_default_def)
qed

lemma generate_example:
  "generate_secret_santa (\<lambda>i. rotate (Suc i)) {(''A'', ''B'')} [''A'', ''B'', ''C'']
     = Inr [(''A'', ''C''), (''B'', ''A''), (''C'', ''B'')]"
proof -
  have g1: "\<not> all_pairs_valid {(''A'', ''B'')}
               (zip [''A'', ''B'', ''C''] (rotate (Suc 0) [''A'', ''B'', ''C'']))"
    by (simp add: is_valid_pair_def)
  have g2: "all_pairs_valid {(''A'', ''B'')}
              (zip [''A'', ''B'', ''C''] (rotate (Suc (Suc 0)) [''A'', ''B'', ''C'']))"
    by (simp add: is_valid_pair_def)
  have g3: "dict (zip [''A'', ''B'', ''C''] (rotate (Suc (Suc 0)) [''A'', ''B'', ''C'']))
              = [(''A'', ''C''), (''B'', ''A''), (''C'', ''B'')]"
    by (simp add: dict_def)
  show ?thesis
    using generate_second [of "{(''A'', ''B'')}" "[''A'', ''B'', ''C'']" "\<lambda>i. rotate (Suc i)",
        OF g1 g2]
    by (simp only: g3)
qed

section \<open>Stripping and the handlers\<close>

lemma strip_pad:
  assumes a: "\<forall>c \<in> set a. isspace c" and b: "\<forall>c \<in> set b. isspace c"
  shows "strip (a @ s @ b) = strip s"
proof -
  have front: "dropWhile isspace (a @ s @ b) = dropWhile isspace (s @ b)"
    by (rule dropWhile_append2) (use a in simp)
  show ?thesis
  proof (cases "\<forall>c \<in> set s. isspace c")
    case True
    with b have e1: "dropWhile isspace (s @ b) = []" by (simp add: dropWhile_eq_Nil_conv)
    from True have e2: "dropWhile isspace s = []" by (simp add: dropWhile_eq_Nil_conv)
    show ?thesis unfolding strip_def front e1 e2 by simp
  next
    case False
    then have "dropWhile isspace (s @ b) = dropWhile isspace s @ b"
      by (auto simp: dropWhile_append1)
    moreover have "dropWhile isspace (rev b @ rev (dropWhile isspace s))
                     = dropWhile isspace (rev (dropWhile isspace s))"
      by (rule dropWhile_append2) (use b in simp)
    ultimately show ?thesis unfolding strip_def front by simp
  qed
qed

lemma strip_Fortis: "strip ''Fortis'' = ''Fortis''"
  by (simp add: strip_def isspace_def)

lemma strip_0000: "strip ''0000'' = ''0000''"
  by (simp add: strip_def isspace_def)

lemma reveal_plain_example:
  "reveal source_config ''t1''
     \<lparr>assignments = [(''Fortis'', ''Diego'')], revealed = []\<rparr>
     [''giver'' \<mapsto> ''Fortis'', ''pin'' \<mapsto> ''1111'']
   = (Reveal_page ''Fortis'' ''Diego'',
      \<lparr>assignments = [(''Fortis'', ''Diego'')], revealed = [(''Fortis'', ''t1'')]\<rparr>)"
  by (simp add: reveal_def init_db_def Let_def get_default_def strip_def isspace_def
      source_config_def revealed_set_def load_receiver_def mark_revealed_def)

lemma reveal_success:
  assumes "reveal cfg now d fm = (Reveal_page P r, d1)"
  shows "P = strip (get_default fm ''giver'' '''') \<and> P \<in> set (NAMES cfg) \<and>
         P \<in> revealed_set d1 \<and> assignments_exist d1"
  using assms
  by (auto simp: reveal_def init_db_def Let_def mark_revealed_def revealed_set_def
      load_receiver_def assignments_exist_def split: if_splits option.splits)

lemma reveal_keeps:
  assumes "P \<in> revealed_set d" "assignments_exist d"
  shows "P \<in> revealed_set (snd (reveal cfg now d fm)) \<and>
         assignments_exist (snd (reveal cfg now d fm))"
  using assms
  by (auto simp: reveal_def init_db_def Let_def mark_revealed_def revealed_set_def
      assignments_exist_def split: option.splits)

lemma handle_keeps:
  assumes "P \<in> revealed_set d" "assignments_exist d" "\<not> authorized_reset cfg rq"
  shows "P \<in> revealed_set (snd (handle cfg d rq)) \<and>
         assignments_exist (snd (handle cfg d rq))"
proof (cases rq)
  case (Get_index shuffle)
  with assms show ?thesis by (simp add: index_def init_db_def)
next
  case (Post_reveal now fm)
  with assms reveal_keeps show ?thesis by simp
next
  case (Post_admin_reset shuffle fm)
  with assms show ?thesis by (auto simp: admin_reset_def init_db_def Let_def)
next
  case (Get_admin args)
  with assms show ?thesis by (simp add: admin_view_def Let_def)
qed

lemma serve_keeps:
  assumes "P \<in> revealed_set d" "assignments_exist d" "\<forall>rq \<in> set rqs. \<not> authorized_reset cfg rq"
  shows "P \<in> revealed_set (serve cfg d rqs)"
  using assms
proof (induction rqs arbitrary: d)
  case Nil
  then show ?case by simp
next
  case (Cons rq rqs)
  from Cons.prems have "\<not> authorized_reset cfg rq" by simp
  from handle_keeps [OF Cons.prems(1) Cons.prems(2) this]
  have "P \<in> revealed_set (snd (handle cfg d rq))" "assignments_exist (snd (handle cfg d rq))"
    by blast+
  moreover from Cons.prems have "\<forall>rq \<in> set rqs. \<not> authorized_reset cfg rq" by simp
  ultimately have "P \<in> revealed_set (serve cfg (snd (handle cfg d rq)) rqs)"
    by (rule Cons.IH)
  then show ?case by simp
qed

section \<open>Generated assignments\<close>

text \<open>
  Claim C1. For a roster without duplicates of at least two names and any set of
  forbidden pairs, whenever every shuffle outcome is a permutation of the roster, a
  mapping returned by \<open>generate_secret_santa\<close> has the roster as its keys in order,
  the roster as its values up to order, is a bijection of the roster onto itself, and
  sends no giver to itself or to a receiver that the forbidden set excludes.
\<close>

theorem generate_secret_santa_valid:
  assumes d: "distinct names" and two: "2 \<le> length names"
    and perm: "\<forall>i<5000. mset (shuffle i names) = mset names"
    and gen: "generate_secret_santa shuffle forbidden names = Inr m"
  shows "map fst m = names \<and> mset (map snd m) = mset names \<and>
         dom (map_of m) = set names \<and>
         bij_betw (\<lambda>g. the (map_of m g)) (set names) (set names) \<and>
         (\<forall>g r. map_of m g = Some r \<longrightarrow> g \<noteq> r \<and> (g, r) \<notin> forbidden)"
  using d perm gen by (rule generate_secret_santa_props)

theorem generate_secret_santa_valid_witness:
  "generate_secret_santa (\<lambda>i. rotate (Suc i)) {(''A'', ''B'')} [''A'', ''B'', ''C'']
     = Inr [(''A'', ''C''), (''B'', ''A''), (''C'', ''B'')] \<and>
   bij_betw (\<lambda>g. the (map_of [(''A'', ''C''), (''B'', ''A''), (''C'', ''B'')] g))
     (set [''A'', ''B'', ''C'']) (set [''A'', ''B'', ''C'']) \<and>
   dom (map_of [(''A'', ''C''), (''B'', ''A''), (''C'', ''B'')]) = set [''A'', ''B'', ''C'']"
proof -
  have d: "distinct [''A'', ''B'', ''C'']" by simp
  have two: "2 \<le> length [''A'', ''B'', ''C'']" by simp
  have perm: "\<forall>i<5000. mset (rotate (Suc i) [''A'', ''B'', ''C'']) = mset [''A'', ''B'', ''C'']"
    by (intro allI impI) (rule mset_rotate)
  note gen = generate_example
  note v = generate_secret_santa_valid [where names = "[''A'', ''B'', ''C'']"
      and shuffle = "\<lambda>i. rotate (Suc i)" and forbidden = "{(''A'', ''B'')}"
      and m = "[(''A'', ''C''), (''B'', ''A''), (''C'', ''B'')]", OF d two perm gen]
  from v have bij: "bij_betw (\<lambda>g. the (map_of [(''A'', ''C''), (''B'', ''A''), (''C'', ''B'')] g))
     (set [''A'', ''B'', ''C'']) (set [''A'', ''B'', ''C''])"
    by (elim conjE)
  from v have keys: "dom (map_of [(''A'', ''C''), (''B'', ''A''), (''C'', ''B'')])
      = set [''A'', ''B'', ''C'']"
    by (elim conjE)
  show ?thesis by (intro conjI gen bij keys)
qed

text \<open>
  Claim C2. The generator always returns: it raises its \<open>RuntimeError\<close> exactly when
  each of the 5000 attempts pairs some giver with itself or with a forbidden receiver,
  and it returns a mapping exactly when some attempt does not.
\<close>

theorem generate_secret_santa_infeasible:
  "(generate_secret_santa shuffle forbidden names = Inl RuntimeError \<longleftrightarrow>
      (\<forall>i<5000. \<exists>(g, r) \<in> set (zip names (shuffle i names)). g = r \<or> (g, r) \<in> forbidden)) \<and>
   ((\<exists>m. generate_secret_santa shuffle forbidden names = Inr m) \<longleftrightarrow>
      \<not> (\<forall>i<5000. \<exists>(g, r) \<in> set (zip names (shuffle i names)). g = r \<or> (g, r) \<in> forbidden))"
proof -
  let ?gen = "generate_secret_santa shuffle forbidden names"
  let ?fail = "\<forall>i<5000. \<exists>(g, r) \<in> set (zip names (shuffle i names)). g = r \<or> (g, r) \<in> forbidden"
  have a: "?gen = Inl RuntimeError \<longleftrightarrow> ?fail"
    by (simp only: generate_Inl not_all_pairs_valid_iff simp_thms)
  have b: "(\<exists>m. ?gen = Inr m) \<longleftrightarrow> ?gen \<noteq> Inl RuntimeError"
  proof (cases ?gen)
    case (Inl e)
    then have "e = RuntimeError" by (simp only: generate_Inl)
    with Inl show ?thesis by simp
  next
    case (Inr m)
    then show ?thesis by simp
  qed
  from a b show ?thesis by blast
qed

theorem generate_secret_santa_infeasible_witness:
  "generate_secret_santa (\<lambda>i xs. xs) {} [''A'', ''B''] = Inl RuntimeError \<and>
   (\<exists>m. generate_secret_santa (\<lambda>i. rotate (Suc i)) {} [''A'', ''B''] = Inr m)"
proof -
  have "\<forall>i<5000::nat. \<exists>(g, r) \<in> set (zip [''A'', ''B''] [''A'', ''B'']). g = r \<or> (g, r) \<in> {}"
    by simp
  then have a: "generate_secret_santa (\<lambda>i xs. xs) {} [''A'', ''B''] = Inl RuntimeError"
    using generate_secret_santa_infeasible [of "\<lambda>i xs. xs" "{}" "[''A'', ''B'']"] by blast
  have "\<not> (\<exists>(g, r) \<in> set (zip [''A'', ''B''] (rotate (Suc 0) [''A'', ''B''])). g = r \<or> (g, r) \<in> {})"
    by simp
  moreover have "(0::nat) < 5000" by simp
  ultimately have "\<not> (\<forall>i<5000. \<exists>(g, r) \<in> set (zip [''A'', ''B''] (rotate (Suc i) [''A'', ''B''])).
                      g = r \<or> (g, r) \<in> {})"
    by blast
  then have b: "\<exists>m. generate_secret_santa (\<lambda>i. rotate (Suc i)) {} [''A'', ''B''] = Inr m"
    using generate_secret_santa_infeasible [of "\<lambda>i. rotate (Suc i)" "{}" "[''A'', ''B'']"] by blast
  from a b show ?thesis by blast
qed

section \<open>Revealing\<close>

text \<open>
  Claim C3. After a reveal for participant \<open>P\<close> has shown the receiver, and after any
  further requests none of which is a reset carrying the configured key, every reveal
  request whose stripped giver field is \<open>P\<close> is answered by the redirect with the
  already-used message, whatever PIN it carries, and leaves the database as it was.
\<close>

theorem reveal_exactly_once:
  assumes first: "reveal cfg now d fm = (Reveal_page P r, d1)"
    and quiet: "\<forall>rq \<in> set rqs. \<not> authorized_reset cfg rq"
    and again: "strip (get_default fm' ''giver'' '''') = P"
  shows "reveal cfg now' (serve cfg d1 rqs) fm'
           = (Redirect_index (Some AlreadyRevealed), serve cfg d1 rqs)"
proof -
  from reveal_success [OF first] have known: "P \<in> set (NAMES cfg)"
    and seen: "P \<in> revealed_set d1" and ex: "assignments_exist d1" by blast+
  from serve_keeps [OF seen ex quiet] have "P \<in> revealed_set (serve cfg d1 rqs)" .
  with known again show ?thesis by (simp add: reveal_def init_db_def)
qed

theorem reveal_exactly_once_witness:
  "reveal source_config ''t3''
     (serve source_config
        \<lparr>assignments = [(''Fortis'', ''Diego''), (''Mara'', ''Fortis'')],
         revealed = [(''Fortis'', ''t1'')]\<rparr>
        [Get_index (\<lambda>i xs. xs),
         Post_reveal ''t2'' [''giver'' \<mapsto> ''Mara'', ''pin'' \<mapsto> ''2222''],
         Post_admin_reset (\<lambda>i xs. xs) [''admin_key'' \<mapsto> ''guess''],
         Get_admin Map.empty])
     [''giver'' \<mapsto> '' Fortis'', ''pin'' \<mapsto> ''1111'']
   = (Redirect_index (Some AlreadyRevealed),
      \<lparr>assignments = [(''Fortis'', ''Diego''), (''Mara'', ''Fortis'')],
       revealed = [(''Fortis'', ''t1''), (''Mara'', ''t2'')]\<rparr>)"
proof -
  let ?d = "\<lparr>assignments = [(''Fortis'', ''Diego''), (''Mara'', ''Fortis'')], revealed = []\<rparr>"
  let ?d1 = "\<lparr>assignments = [(''Fortis'', ''Diego''), (''Mara'', ''Fortis'')],
             revealed = [(''Fortis'', ''t1'')]\<rparr>"
  let ?rqs = "[Get_index (\<lambda>i xs. xs),
         Post_reveal ''t2'' [''giver'' \<mapsto> ''Mara'', ''pin'' \<mapsto> ''2222''],
         Post_admin_reset (\<lambda>i xs. xs) [''admin_key'' \<mapsto> ''guess''],
         Get_admin Map.empty]"
  have first: "reveal source_config ''t1'' ?d [''giver'' \<mapsto> ''Fortis'', ''pin'' \<mapsto> ''1111'']
                 = (Reveal_page ''Fortis'' ''Diego'', ?d1)"
    by (simp add: reveal_def init_db_def Let_def get_default_def strip_def isspace_def
        source_config_def revealed_set_def load_receiver_def mark_revealed_def)
  have quiet: "\<forall>rq \<in> set ?rqs. \<not> authorized_reset source_config rq"
    by (simp add: get_default_def source_config_def)
  have again: "strip (get_default [''giver'' \<mapsto> '' Fortis'', ''pin'' \<mapsto> ''1111''] ''giver'' '''')
                 = ''Fortis''"
    by (simp add: get_default_def strip_def isspace_def)
  have sv: "serve source_config ?d1 ?rqs
              = \<lparr>assignments = [(''Fortis'', ''Diego''), (''Mara'', ''Fortis'')],
                 revealed = [(''Fortis'', ''t1''), (''Mara'', ''t2'')]\<rparr>"
    by (simp add: index_def reveal_def admin_reset_def admin_view_def init_db_def Let_def
        get_default_def strip_def isspace_def source_config_def revealed_set_def
        load_receiver_def mark_revealed_def assignments_exist_def)
  from reveal_exactly_once [OF first quiet again, of "''t3''"]
  show ?thesis by (simp only: sv)
qed

text \<open>
  Claim C4. \<open>reveal\<close> checks, in this order, that the name is known, that the name
  has not revealed yet, that the PIN matches when PINs are required, and that a
  receiver is stored; the first check that fails decides the message, and only when
  all pass is the receiver shown and the giver marked.
\<close>

theorem reveal_validation_order:
  "let giver = strip (get_default fm ''giver'' '''');
       pin = strip (get_default fm ''pin'' '''');
       unknown = (giver \<notin> set (NAMES cfg));
       seen = (giver \<in> revealed_set d);
       mismatch = (PIN_REQUIRED cfg \<and> PINS cfg giver \<noteq> Some pin);
       missing = (load_receiver d giver = None \<or> load_receiver d giver = Some [])
   in (unknown \<longrightarrow> reveal cfg now d fm = (Redirect_index (Some InvalidName), d)) \<and>
      (\<not> unknown \<and> seen \<longrightarrow> reveal cfg now d fm = (Redirect_index (Some AlreadyRevealed), d)) \<and>
      (\<not> unknown \<and> \<not> seen \<and> mismatch \<longrightarrow>
         reveal cfg now d fm = (Redirect_index (Some BadPin), d)) \<and>
      (\<not> unknown \<and> \<not> seen \<and> \<not> mismatch \<and> missing \<longrightarrow>
         reveal cfg now d fm = (Redirect_index (Some MissingAssignment), d)) \<and>
      (\<not> unknown \<and> \<not> seen \<and> \<not> mismatch \<and> \<not> missing \<longrightarrow>
         reveal cfg now d fm =
           (Reveal_page giver (the (load_receiver d giver)), mark_revealed now giver d))"
  by (auto simp: reveal_def init_db_def Let_def split: option.splits)

theorem reveal_validation_order_witness:
  "reveal source_config ''t1''
     \<lparr>assignments = [], revealed = [(''Fortis'', ''t0'')]\<rparr>
     [''giver'' \<mapsto> ''Fortis'', ''pin'' \<mapsto> ''0000'']
   = (Redirect_index (Some AlreadyRevealed),
      \<lparr>assignments = [], revealed = [(''Fortis'', ''t0'')]\<rparr>)"
  using reveal_validation_order [of "[''giver'' \<mapsto> ''Fortis'', ''pin'' \<mapsto> ''0000'']"
      source_config "\<lparr>assignments = [], revealed = [(''Fortis'', ''t0'')]\<rparr>" "''t1''"]
  by (simp add: Let_def get_default_def strip_Fortis strip_0000 source_config_def
      revealed_set_def)

text \<open>
  Claim C5. A reveal that ends in a redirect leaves the database as it was; with PINs
  required, a reveal whose PIN is not the giver's configured PIN leaves the database
  as it was and never shows the reveal page.
\<close>

theorem reveal_rejected_no_change:
  "(\<forall>fl. fst (reveal cfg now d fm) = Redirect_index fl \<longrightarrow> snd (reveal cfg now d fm) = d) \<and>
   (PIN_REQUIRED cfg \<and>
    PINS cfg (strip (get_default fm ''giver'' '''')) \<noteq> Some (strip (get_default fm ''pin'' ''''))
      \<longrightarrow> snd (reveal cfg now d fm) = d \<and>
          (\<forall>g r. fst (reveal cfg now d fm) \<noteq> Reveal_page g r))"
  by (auto simp: reveal_def init_db_def Let_def split: option.splits)

theorem reveal_rejected_no_change_witness:
  "snd (reveal source_config ''t1''
     \<lparr>assignments = [(''Fortis'', ''Diego'')], revealed = []\<rparr>
     [''giver'' \<mapsto> ''Fortis'', ''pin'' \<mapsto> ''0000''])
   = \<lparr>assignments = [(''Fortis'', ''Diego'')], revealed = []\<rparr>"
  using reveal_rejected_no_change [of source_config "''t1''"
      "\<lparr>assignments = [(''Fortis'', ''Diego'')], revealed = []\<rparr>"
      "[''giver'' \<mapsto> ''Fortis'', ''pin'' \<mapsto> ''0000'']"]
  by (simp add: get_default_def strip_Fortis strip_0000 source_config_def)

section \<open>Saving, the landing page and the admin routes\<close>

text \<open>
  Claim C6. For a mapping with pairwise different givers, \<open>save_assignments\<close>
  succeeds, stores exactly the mapping and leaves no reveal record, so that nobody
  is revealed and \<open>load_receiver\<close> agrees with the mapping. A reset with the
  configured key whose generator returns a mapping stores that mapping in this way,
  and the mapping is a bijection of the roster that respects the constraints.
\<close>

theorem save_assignments_replaces:
  "(distinct (map fst mapping) \<longrightarrow>
      save_assignments mapping d = Inr (d\<lparr>assignments := mapping, revealed := []\<rparr>) \<and>
      revealed_set (d\<lparr>assignments := mapping, revealed := []\<rparr>) = {} \<and>
      (\<forall>g. load_receiver (d\<lparr>assignments := mapping, revealed := []\<rparr>) g = map_of mapping g)) \<and>
   (environ cfg ''ADMIN_KEY'' = Some k \<and> k \<noteq> [] \<and> get_default fm ''admin_key'' '''' = k \<and>
    distinct (NAMES cfg) \<and> (\<forall>i<5000. mset (shuffle i (NAMES cfg)) = mset (NAMES cfg)) \<and>
    generate_secret_santa shuffle (FORBIDDEN_PAIRS cfg) (NAMES cfg) = Inr m \<longrightarrow>
      admin_reset cfg shuffle d fm = (Redirect_index None, d\<lparr>assignments := m, revealed := []\<rparr>) \<and>
      revealed_set (d\<lparr>assignments := m, revealed := []\<rparr>) = {} \<and>
      (\<forall>g. load_receiver (d\<lparr>assignments := m, revealed := []\<rparr>) g = map_of m g) \<and>
      map fst m = NAMES cfg \<and>
      bij_betw (\<lambda>g. the (map_of m g)) (set (NAMES cfg)) (set (NAMES cfg)) \<and>
      (\<forall>g r. map_of m g = Some r \<longrightarrow> g \<noteq> r \<and> (g, r) \<notin> FORBIDDEN_PAIRS cfg))"
proof (intro conjI impI)
  assume "distinct (map fst mapping)"
  then show "save_assignments mapping d = Inr (d\<lparr>assignments := mapping, revealed := []\<rparr>)"
    by (rule save_assignments_distinct)
next
  show "revealed_set (d\<lparr>assignments := mapping, revealed := []\<rparr>) = {}"
    using save_lookup by blast
next
  show "\<forall>g. load_receiver (d\<lparr>assignments := mapping, revealed := []\<rparr>) g = map_of mapping g"
    using save_lookup by blast
next
  assume a: "environ cfg ''ADMIN_KEY'' = Some k \<and> k \<noteq> [] \<and> get_default fm ''admin_key'' '''' = k \<and>
    distinct (NAMES cfg) \<and> (\<forall>i<5000. mset (shuffle i (NAMES cfg)) = mset (NAMES cfg)) \<and>
    generate_secret_santa shuffle (FORBIDDEN_PAIRS cfg) (NAMES cfg) = Inr m"
  then show "admin_reset cfg shuffle d fm = (Redirect_index None, d\<lparr>assignments := m, revealed := []\<rparr>)"
    using admin_reset_authorized by blast
  show "revealed_set (d\<lparr>assignments := m, revealed := []\<rparr>) = {}"
    using save_lookup by blast
  show "\<forall>g. load_receiver (d\<lparr>assignments := m, revealed := []\<rparr>) g = map_of m g"
    using save_lookup by blast
  from a have p: "map fst m = NAMES cfg \<and> mset (map snd m) = mset (NAMES cfg) \<and>
         dom (map_of m) = set (NAMES cfg) \<and>
         bij_betw (\<lambda>g. the (map_of m g)) (set (NAMES cfg)) (set (NAMES cfg)) \<and>
         (\<forall>g r. map_of m g = Some r \<longrightarrow> g \<noteq> r \<and> (g, r) \<notin> FORBIDDEN_PAIRS cfg)"
    using generate_secret_santa_props [of "NAMES cfg" shuffle "FORBIDDEN_PAIRS cfg" m] by blast
  from p show "map fst m = NAMES cfg" by blast
  from p show "bij_betw (\<lambda>g. the (map_of m g)) (set (NAMES cfg)) (set (NAMES cfg))" by blast
  from p show "\<forall>g r. map_of m g = Some r \<longrightarrow> g \<noteq> r \<and> (g, r) \<notin> FORBIDDEN_PAIRS cfg" by blast
qed

theorem save_assignments_replaces_witness:
  "save_assignments [(''A'', ''C''), (''B'', ''A''), (''C'', ''B'')]
     \<lparr>assignments = [(''A'', ''C'')], revealed = [(''A'', ''t0'')]\<rparr>
   = Inr \<lparr>assignments = [(''A'', ''C''), (''B'', ''A''), (''C'', ''B'')], revealed = []\<rparr> \<and>
   admin_reset
     \<lparr>NAMES = [''A'', ''B'', ''C''], PIN_REQUIRED = False, PINS = Map.empty,
      FORBIDDEN_PAIRS = {(''A'', ''B'')}, environ = [''ADMIN_KEY'' \<mapsto> ''k'']\<rparr>
     (\<lambda>i. rotate (Suc i))
     \<lparr>assignments = [(''A'', ''C'')], revealed = [(''A'', ''t0'')]\<rparr>
     [''admin_key'' \<mapsto> ''k'']
   = (Redirect_index None,
      \<lparr>assignments = [(''A'', ''C''), (''B'', ''A''), (''C'', ''B'')], revealed = []\<rparr>)"
proof -
  let ?m = "[(''A'', ''C''), (''B'', ''A''), (''C'', ''B'')]"
  let ?d = "\<lparr>assignments = [(''A'', ''C'')], revealed = [(''A'', ''t0'')]\<rparr>"
  let ?cfg = "\<lparr>NAMES = [''A'', ''B'', ''C''], PIN_REQUIRED = False, PINS = Map.empty,
      FORBIDDEN_PAIRS = {(''A'', ''B'')}, environ = [''ADMIN_KEY'' \<mapsto> ''k'']\<rparr>"
  let ?fm = "[''admin_key'' \<mapsto> ''k'']"
  let ?sh = "\<lambda>i::nat. rotate (Suc i) :: name list \<Rightarrow> name list"
  note t = save_assignments_replaces [where mapping = ?m and d = ?d and cfg = ?cfg
      and k = "''k''" and fm = ?fm and shuffle = ?sh and m = ?m]
  have h1: "distinct (map fst ?m)" by simp
  have perm: "\<forall>i<5000. mset (?sh i (NAMES ?cfg)) = mset (NAMES ?cfg)"
    by (intro allI impI) (rule mset_rotate)
  have gen: "generate_secret_santa ?sh (FORBIDDEN_PAIRS ?cfg) (NAMES ?cfg) = Inr ?m"
    by (simp add: generate_example)
  have key: "environ ?cfg ''ADMIN_KEY'' = Some ''k''" "''k'' \<noteq> []"
    "get_default ?fm ''admin_key'' '''' = ''k''" "distinct (NAMES ?cfg)"
    by (simp_all add: get_default_def)
  have h2: "environ ?cfg ''ADMIN_KEY'' = Some ''k'' \<and> ''k'' \<noteq> [] \<and>
    get_default ?fm ''admin_key'' '''' = ''k'' \<and> distinct (NAMES ?cfg) \<and>
    (\<forall>i<5000. mset (?sh i (NAMES ?cfg)) = mset (NAMES ?cfg)) \<and>
    generate_secret_santa ?sh (FORBIDDEN_PAIRS ?cfg) (NAMES ?cfg) = Inr ?m"
    by (intro conjI key perm gen)
  from t [THEN conjunct1, THEN mp, OF h1, THEN conjunct1]
  have a: "save_assignments ?m ?d = Inr (?d\<lparr>assignments := ?m, revealed := []\<rparr>)" .
  from t [THEN conjunct2, THEN mp, OF h2, THEN conjunct1]
  have b: "admin_reset ?cfg ?sh ?d ?fm = (Redirect_index None, ?d\<lparr>assignments := ?m, revealed := []\<rparr>)" .
  from a b show ?thesis by simp
qed

text \<open>
  Claim C7. When assignments are stored, \<open>index\<close> renders the landing page
  without calling the generator and leaves the database as it was, also when it is
  called again.
\<close>

theorem index_idempotent:
  assumes "assignments_exist d"
  shows "index cfg shuffle d =
           (Index_page (map (\<lambda>n. (n, n \<in> revealed_set d)) (NAMES cfg)) (PIN_REQUIRED cfg), d) \<and>
         snd (index cfg shuffle' (snd (index cfg shuffle d))) = d"
  using assms by (simp add: index_def init_db_def)

theorem index_idempotent_witness:
  "snd (index source_config (\<lambda>i xs. xs)
     \<lparr>assignments = [(''Fortis'', ''Diego'')], revealed = [(''Fortis'', ''t0'')]\<rparr>)
   = \<lparr>assignments = [(''Fortis'', ''Diego'')], revealed = [(''Fortis'', ''t0'')]\<rparr>"
  using index_idempotent [of "\<lparr>assignments = [(''Fortis'', ''Diego'')], revealed = [(''Fortis'', ''t0'')]\<rparr>"
      source_config "\<lambda>i xs. xs" "\<lambda>i xs. xs"]
  by (simp add: assignments_exist_def)

text \<open>
  Claim C8. A reset whose key differs from the configured key, or any reset while no
  key is configured, is answered with \<open>Unauthorized\<close> and leaves the database as it
  was.
\<close>

theorem admin_reset_unauthorized:
  assumes "environ cfg ''ADMIN_KEY'' = None \<or>
           environ cfg ''ADMIN_KEY'' \<noteq> Some (get_default fm ''admin_key'' '''')"
  shows "admin_reset cfg shuffle d fm = (Unauthorized, d)"
  using assms by (auto simp: admin_reset_def init_db_def get_default_def Let_def split: option.splits)

theorem admin_reset_unauthorized_witness:
  "admin_reset source_config (\<lambda>i. rotate (Suc i))
     \<lparr>assignments = [(''Fortis'', ''Diego'')], revealed = [(''Fortis'', ''t0'')]\<rparr>
     [''admin_key'' \<mapsto> ''guess'']
   = (Unauthorized, \<lparr>assignments = [(''Fortis'', ''Diego'')], revealed = [(''Fortis'', ''t0'')]\<rparr>) \<and>
   admin_reset (source_config\<lparr>environ := [''ADMIN_KEY'' \<mapsto> ''s3cret'']\<rparr>) (\<lambda>i. rotate (Suc i))
     \<lparr>assignments = [(''Fortis'', ''Diego'')], revealed = [(''Fortis'', ''t0'')]\<rparr>
     [''admin_key'' \<mapsto> ''guess'']
   = (Unauthorized, \<lparr>assignments = [(''Fortis'', ''Diego'')], revealed = [(''Fortis'', ''t0'')]\<rparr>)"
  using admin_reset_unauthorized [of source_config "[''admin_key'' \<mapsto> ''guess'']"
      "\<lambda>i. rotate (Suc i)"
      "\<lparr>assignments = [(''Fortis'', ''Diego'')], revealed = [(''Fortis'', ''t0'')]\<rparr>"]
    admin_reset_unauthorized [of "source_config\<lparr>environ := [''ADMIN_KEY'' \<mapsto> ''s3cret'']\<rparr>"
      "[''admin_key'' \<mapsto> ''guess'']" "\<lambda>i. rotate (Suc i)"
      "\<lparr>assignments = [(''Fortis'', ''Diego'')], revealed = [(''Fortis'', ''t0'')]\<rparr>"]
  by (simp add: get_default_def source_config_def)

text \<open>
  Claim C9. With no admin key configured and no \<open>key\<close> argument in the request,
  \<open>admin_view\<close> compares \<open>None\<close> with \<open>None\<close> and lists both tables, where
  \<open>admin_reset\<close> answers \<open>Unauthorized\<close> on the same configuration.
\<close>

theorem admin_view_unset_key_discloses:
  "admin_view source_config
     \<lparr>assignments = [(''Fortis'', ''Diego'')], revealed = [(''Fortis'', ''t0'')]\<rparr> Map.empty
   = (Admin_page [(''Fortis'', ''Diego'')] [(''Fortis'', ''t0'')] None,
      \<lparr>assignments = [(''Fortis'', ''Diego'')], revealed = [(''Fortis'', ''t0'')]\<rparr>) \<and>
   admin_reset source_config (\<lambda>i. rotate (Suc i))
     \<lparr>assignments = [(''Fortis'', ''Diego'')], revealed = [(''Fortis'', ''t0'')]\<rparr> Map.empty
   = (Unauthorized,
      \<lparr>assignments = [(''Fortis'', ''Diego'')], revealed = [(''Fortis'', ''t0'')]\<rparr>)"
  by (simp add: admin_view_def admin_reset_def init_db_def get_default_def source_config_def)

text \<open>
  Claim C10. \<open>reveal\<close> strips the giver and PIN fields before any check: padding
  either field with whitespace on both sides does not change its answer or the
  database it leaves.
\<close>

theorem reveal_strips_fields:
  assumes "\<forall>c \<in> set a. isspace c" and "\<forall>c \<in> set b. isspace c"
    and "\<forall>c \<in> set a'. isspace c" and "\<forall>c \<in> set b'. isspace c"
  shows "reveal cfg now d (fm(''giver'' \<mapsto> a @ giver @ b, ''pin'' \<mapsto> a' @ pin @ b'))
           = reveal cfg now d (fm(''giver'' \<mapsto> giver, ''pin'' \<mapsto> pin))"
  using assms by (simp add: reveal_def get_default_def strip_pad)

theorem reveal_strips_fields_witness:
  "reveal source_config ''t1''
     \<lparr>assignments = [(''Fortis'', ''Diego'')], revealed = []\<rparr>
     [''giver'' \<mapsto> ''  Fortis '', ''pin'' \<mapsto> '' 1111  '']
   = (Reveal_page ''Fortis'' ''Diego'',
      \<lparr>assignments = [(''Fortis'', ''Diego'')], revealed = [(''Fortis'', ''t1'')]\<rparr>)"
proof -
  have sp: "\<forall>c \<in> set ''  ''. isspace c" "\<forall>c \<in> set '' ''. isspace c"
    by (simp_all add: isspace_def)
  have "reveal source_config ''t1''
     \<lparr>assignments = [(''Fortis'', ''Diego'')], revealed = []\<rparr>
     (Map.empty(''giver'' \<mapsto> ''  '' @ ''Fortis'' @ '' '', ''pin'' \<mapsto> '' '' @ ''1111'' @ ''  ''))
    = reveal source_config ''t1''
     \<lparr>assignments = [(''Fortis'', ''Diego'')], revealed = []\<rparr>
     (Map.empty(''giver'' \<mapsto> ''Fortis'', ''pin'' \<mapsto> ''1111''))"
    by (rule reveal_strips_fields [OF sp(1) sp(2) sp(2) sp(1)])
  then show ?thesis by (simp only: reveal_plain_example append.simps)
qed

end
